theory Spec2Isabelle
  imports
    Main
    "HOL-Library.List_Lexorder"
    "HOL-Library.Product_Lexorder"
    "HOL-Library.Multiset"
begin

section \<open>The BLS dashboard: data model\<close>

text \<open>
  The program is one function, \<open>main\<close> of \<^verbatim>\<open>streamlit_app.py\<close>: it posts a fixed
  request, checks the status of the decoded response, flattens the nested
  series/observation structure into rows, transforms the table with pandas and renders a
  dashboard for a selected series and a rolling window.

  A Python string is the list of its code points, \<open>str\<close>. Its comparison (\<^verbatim>\<open><=\<close>, and the
  comparison pandas sorts object columns by) is the lexicographic order on code points,
  which is the order of \<open>List_Lexorder\<close> on lists of numbers. \<open>lit\<close> writes an ASCII
  literal of the source.
\<close>

type_synonym str = "nat list"

definition chr_code :: "char \<Rightarrow> nat" where
  "chr_code c = of_char c"

definition lit :: "string \<Rightarrow> str" where
  "lit s = map chr_code s"

text \<open>
  The decoded response follows the shape the program reads: a status, an optional
  message, and the list of series under \<^verbatim>\<open>Results.series\<close>; each series has its id and
  its observations; each observation has year, period and value as strings and a list of
  footnotes. A footnote is a JSON object with string values (in practice the keys
  \<^verbatim>\<open>code\<close> and \<^verbatim>\<open>text\<close>), possibly the empty object, or \<^verbatim>\<open>null\<close>.
\<close>

datatype footnote = Null | Obj "(str \<times> str) list"

record observation =
  o_year :: str
  o_period :: str
  o_value :: str
  o_footnotes :: "footnote list"

record series =
  seriesID :: str
  s_data :: "observation list"

record response =
  status :: str
  message :: "str option"
  Results :: "series list"

text \<open>A row of \<^verbatim>\<open>bls_list\<close>: \<^verbatim>\<open>[series_id, year, period, value, footnotes]\<close>.\<close>

record flat_row =
  f_series_id :: str
  f_year :: str
  f_period :: str
  f_value :: str
  f_footnotes :: str

text \<open>
  The files the program writes. A pretty-printed table and a CSV file are kept as their
  header and their records; how the libraries lay the text out is not modelled.
\<close>

datatype file_content =
    PrettyTable "str list" "flat_row list"
  | Csv "str list" "flat_row list"

type_synonym files = "str \<rightharpoonup> file_content"

definition table_header :: "str list" where
  "table_header =
     [lit ''Series ID'', lit ''Year'', lit ''Period'', lit ''Value'', lit ''Footnotes'']"

text \<open>
  What the run takes from outside the source file is gathered in a record, the platform:
  \<^item> \<open>can_write path content\<close>: whether \<^verbatim>\<open>open(path, 'w')\<close> and the write of that content
    succeed in the working directory (they raise otherwise, for instance for a path
    through a directory that does not exist);
  \<^item> \<open>unicode_decimal\<close>: the decimal digit value that the interpreter's Unicode database
    gives a character outside ASCII, if it is a decimal digit;
  \<^item> \<open>max_str_digits\<close>: the interpreter's limit on the number of digits of a string
    converted to an integer (\<^verbatim>\<open>sys.get_int_max_str_digits()\<close>, 4300 unless configured,
    0 for no limit);
  \<^item> the numeric library on the type \<open>'v\<close> of 64-bit floats: the cell parser of
    \<^verbatim>\<open>pd.to_numeric\<close> (\<open>None\<close> where it cannot parse the text), the value \<^verbatim>\<open>NaN\<close>, the
    reductions \<^verbatim>\<open>Series.max()\<close>, \<^verbatim>\<open>.min()\<close> and \<^verbatim>\<open>.mean()\<close>,
    \<^verbatim>\<open>Series.rolling(window=w).mean()\<close>, and the float format \<^verbatim>\<open>f"{v:.2f}"\<close>.
  The floating-point results of the library are not computed in this theory: they are
  whatever the platform returns.
\<close>

record 'v platform =
  can_write :: "str \<Rightarrow> file_content \<Rightarrow> bool"
  unicode_decimal :: "nat \<Rightarrow> nat option"
  max_str_digits :: nat
  parse_numeric :: "str \<Rightarrow> 'v option"
  nan :: 'v
  series_max :: "'v list \<Rightarrow> 'v"
  series_min :: "'v list \<Rightarrow> 'v"
  series_mean :: "'v list \<Rightarrow> 'v"
  rolling_mean :: "nat \<Rightarrow> 'v list \<Rightarrow> 'v list"
  format_2f :: "'v \<Rightarrow> str"

text \<open>The exceptions that end a run, each with the text it is about.\<close>

datatype error =
    WriteError str
  | ConversionError str
  | ParseError str

section \<open>Data collection: status check and flattening\<close>

text \<open>
  \<^verbatim>\<open>if json_data['status'] != 'REQUEST_SUCCEEDED':
      st.error(f"Error in BLS API response: {json_data.get('message','Unknown error')}")
      st.stop()\<close>
  \<open>check_status\<close> returns the text handed to \<^verbatim>\<open>st.error\<close> when the run is stopped.
\<close>

definition check_status :: "response \<Rightarrow> str option" where
  "check_status json_data =
     (if status json_data \<noteq> lit ''REQUEST_SUCCEEDED''
      then Some (lit ''Error in BLS API response: '' @
                 (case message json_data of Some m \<Rightarrow> m | None \<Rightarrow> lit ''Unknown error''))
      else None)"

text \<open>\<^verbatim>\<open>foot and 'text' in foot\<close>: a footnote that is truthy (neither \<^verbatim>\<open>null\<close> nor the
  empty object) and has the key \<^verbatim>\<open>text\<close>.\<close>

fun has_text :: "footnote \<Rightarrow> bool" where
  "has_text Null = False"
| "has_text (Obj kvs) = (kvs \<noteq> [] \<and> map_of kvs (lit ''text'') \<noteq> None)"

fun foot_text :: "footnote \<Rightarrow> str" where
  "foot_text Null = []"
| "foot_text (Obj kvs) = (case map_of kvs (lit ''text'') of Some t \<Rightarrow> t | None \<Rightarrow> [])"

text \<open>\<^verbatim>\<open>sep.join(xs)\<close>\<close>

fun join :: "str \<Rightarrow> str list \<Rightarrow> str" where
  "join sep [] = []"
| "join sep [x] = x"
| "join sep (x # y # ys) = x @ sep @ join sep (y # ys)"

definition footnote_texts :: "observation \<Rightarrow> str list" where
  "footnote_texts item = map foot_text (filter has_text (o_footnotes item))"

definition footnotes_of :: "observation \<Rightarrow> str" where
  "footnotes_of item = join (lit '', '') (footnote_texts item)"

text \<open>\<^verbatim>\<open>"M01" <= period <= "M12"\<close>\<close>

definition monthly :: "str \<Rightarrow> bool" where
  "monthly period \<longleftrightarrow> lit ''M01'' \<le> period \<and> period \<le> lit ''M12''"

definition mk_row :: "str \<Rightarrow> observation \<Rightarrow> flat_row" where
  "mk_row series_id item =
     \<lparr>f_series_id = series_id, f_year = o_year item, f_period = o_period item,
      f_value = o_value item, f_footnotes = footnotes_of item\<rparr>"

text \<open>
  The inner loop over \<^verbatim>\<open>series['data']\<close>: the state is \<^verbatim>\<open>bls_list\<close> and the rows of the
  pretty table \<^verbatim>\<open>x\<close>; a monthly observation is appended to both.
\<close>

fun item_loop ::
  "str \<Rightarrow> observation list \<Rightarrow> flat_row list \<times> flat_row list \<Rightarrow> flat_row list \<times> flat_row list"
where
  "item_loop series_id [] (bls_list, x) = (bls_list, x)"
| "item_loop series_id (item # items) (bls_list, x) =
     (if monthly (o_period item)
      then item_loop series_id items
             (bls_list @ [mk_row series_id item], x @ [mk_row series_id item])
      else item_loop series_id items (bls_list, x))"

text \<open>
  The outer loop over \<^verbatim>\<open>json_data['Results']['series']\<close>: each series starts a new
  pretty table and, after its observations, writes it to \<^verbatim>\<open><series_id>.txt\<close>
  (a later series with the same id overwrites the file). When the file cannot be
  written the exception ends the loop and the run; the files written so far stay.
\<close>

fun series_loop ::
  "'v platform \<Rightarrow> series list \<Rightarrow> flat_row list \<times> files \<Rightarrow>
     error \<times> files + flat_row list \<times> files"
where
  "series_loop p [] (bls_list, fs) = Inr (bls_list, fs)"
| "series_loop p (s # ss) (bls_list, fs) =
     (let series_id = seriesID s;
          (bls_list', x) = item_loop series_id (s_data s) (bls_list, []);
          path = series_id @ lit ''.txt'';
          content = PrettyTable table_header x
      in if can_write p path content
         then series_loop p ss (bls_list', fs(path \<mapsto> content))
         else Inl (WriteError path, fs))"

text \<open>The flattened table is \<^verbatim>\<open>bls_list\<close> after the loops, started empty.\<close>

definition normalizer :: "'v platform \<Rightarrow> series list \<Rightarrow> error \<times> files + flat_row list \<times> files" where
  "normalizer p ss = series_loop p ss ([], Map.empty)"

text \<open>\<^verbatim>\<open>df.to_csv("bls_data.csv", index=False)\<close> on the frame built from \<^verbatim>\<open>bls_list\<close>.\<close>

definition to_csv :: "'v platform \<Rightarrow> flat_row list \<Rightarrow> files \<Rightarrow> error \<times> files + files" where
  "to_csv p df fs =
     (let path = lit ''bls_data.csv''; content = Csv table_header df
      in if can_write p path content then Inr (fs(path \<mapsto> content))
         else Inl (WriteError path, fs))"

section \<open>Data transformation\<close>

text \<open>
  \<^verbatim>\<open>df['Period'].str.replace('M','', regex=False).astype(int)\<close> removes every
  \<^verbatim>\<open>M\<close> of the period and converts what is left with Python's \<open>int\<close>; the integer is then
  stored in a 64-bit column. The conversion raises on a string that is not an integer
  literal and on an integer that does not fit.

  \<open>py_int\<close> is \<open>int\<close> on a string: a character outside ASCII that is a Unicode space counts
  as a blank and one that is a Unicode decimal digit as that digit; blanks around the
  literal are ignored, a sign may lead, and single underscores may separate digits. A
  literal of more than 640 digits is refused when it has more digits than the
  interpreter's limit.
\<close>

definition ascii_digit :: "nat \<Rightarrow> bool" where
  "ascii_digit c \<longleftrightarrow> 48 \<le> c \<and> c \<le> 57"

definition unicode_space :: "nat \<Rightarrow> bool" where
  "unicode_space c \<longleftrightarrow>
     c \<in> set [0x85, 0xA0, 0x1680, 0x2028, 0x2029, 0x202F, 0x205F, 0x3000] \<or>
     (0x2000 \<le> c \<and> c \<le> 0x200A)"

definition is_space :: "nat \<Rightarrow> bool" where
  "is_space c \<longleftrightarrow> (9 \<le> c \<and> c \<le> 13) \<or> c = 32 \<or> unicode_space c"

definition digit_value :: "'v platform \<Rightarrow> nat \<Rightarrow> nat option" where
  "digit_value p c =
     (if ascii_digit c then Some (c - 48)
      else if c < 128 then None
      else unicode_decimal p c)"

definition strip :: "str \<Rightarrow> str" where
  "strip s = rev (dropWhile is_space (rev (dropWhile is_space s)))"

fun digits_from :: "'v platform \<Rightarrow> nat \<Rightarrow> str \<Rightarrow> nat option" where
  "digits_from p acc [] = Some acc"
| "digits_from p acc [c] =
     (case digit_value p c of Some d \<Rightarrow> Some (10 * acc + d) | None \<Rightarrow> None)"
| "digits_from p acc (c # d # cs) =
     (case digit_value p c of
        Some v \<Rightarrow> digits_from p (10 * acc + v) (d # cs)
      | None \<Rightarrow>
          if c = chr_code CHR ''_'' then
            (case digit_value p d of
               Some v \<Rightarrow> digits_from p (10 * acc + v) cs
             | None \<Rightarrow> None)
          else None)"

definition digits_allowed :: "'v platform \<Rightarrow> nat \<Rightarrow> bool" where
  "digits_allowed p n \<longleftrightarrow> n \<le> 640 \<or> max_str_digits p = 0 \<or> n \<le> max_str_digits p"

definition unsigned_int :: "'v platform \<Rightarrow> str \<Rightarrow> nat option" where
  "unsigned_int p s =
     (case s of [] \<Rightarrow> None
      | c # cs \<Rightarrow>
          (case digit_value p c of
             Some d \<Rightarrow>
               if digits_allowed p (length (filter (\<lambda>c. c \<noteq> chr_code CHR ''_'') s))
               then digits_from p d cs else None
           | None \<Rightarrow> None))"

definition py_int :: "'v platform \<Rightarrow> str \<Rightarrow> int option" where
  "py_int p s =
     (case strip s of [] \<Rightarrow> None
      | c # cs \<Rightarrow>
          if c = chr_code CHR ''-'' then map_option (\<lambda>n. - int n) (unsigned_int p cs)
          else if c = chr_code CHR ''+'' then map_option int (unsigned_int p cs)
          else map_option int (unsigned_int p (c # cs)))"

text \<open>\<^verbatim>\<open>s.replace('M', '')\<close>\<close>

definition replace_M :: "str \<Rightarrow> str" where
  "replace_M s = filter (\<lambda>c. c \<noteq> chr_code CHR ''M'') s"

text \<open>\<^verbatim>\<open>.astype(int)\<close> on a column of strings: the first cell that fails raises.\<close>

definition in_int64 :: "int \<Rightarrow> bool" where
  "in_int64 n \<longleftrightarrow> - (2 ^ 63) \<le> n \<and> n < 2 ^ 63"

definition to_int64 :: "'v platform \<Rightarrow> str \<Rightarrow> error + int" where
  "to_int64 p s =
     (case py_int p s of
        None \<Rightarrow> Inl (ConversionError s)
      | Some n \<Rightarrow> if in_int64 n then Inr n else Inl (ConversionError s))"

fun astype_int :: "'v platform \<Rightarrow> str list \<Rightarrow> error + int list" where
  "astype_int p [] = Inr []"
| "astype_int p (s # ss) =
     (case to_int64 p s of
        Inl e \<Rightarrow> Inl e
      | Inr n \<Rightarrow> (case astype_int p ss of Inl e \<Rightarrow> Inl e | Inr ns \<Rightarrow> Inr (n # ns)))"

text \<open>
  \<^verbatim>\<open>pd.to_numeric(column, errors=...)\<close>: each cell goes through the library's parser; on
  a cell it cannot parse, \<^verbatim>\<open>errors='raise'\<close> (the default) raises and \<^verbatim>\<open>errors='coerce'\<close>
  puts \<^verbatim>\<open>NaN\<close> in its place. The program calls it with \<^verbatim>\<open>errors='coerce'\<close>.
\<close>

datatype errors = Raise | Coerce

fun to_numeric :: "'v platform \<Rightarrow> errors \<Rightarrow> str list \<Rightarrow> error + 'v list" where
  "to_numeric p mode [] = Inr []"
| "to_numeric p mode (s # ss) =
     (case parse_numeric p s of
        Some v \<Rightarrow>
          (case to_numeric p mode ss of Inl e \<Rightarrow> Inl e | Inr vs \<Rightarrow> Inr (v # vs))
      | None \<Rightarrow>
          (case mode of
             Raise \<Rightarrow> Inl (ParseError s)
           | Coerce \<Rightarrow>
               (case to_numeric p mode ss of Inl e \<Rightarrow> Inl e | Inr vs \<Rightarrow> Inr (nan p # vs))))"

text \<open>\<^verbatim>\<open>str(n)\<close> for an integer, as \<^verbatim>\<open>.astype(str)\<close> applies it to the month.\<close>

fun show_nat :: "nat \<Rightarrow> str" where
  "show_nat n = (if n < 10 then [48 + n] else show_nat (n div 10) @ [48 + n mod 10])"

declare show_nat.simps [simp del]

definition show_int :: "int \<Rightarrow> str" where
  "show_int i = (if i < 0 then lit ''-'' @ show_nat (nat (- i)) else show_nat (nat i))"

text \<open>
  A row of the transformed table. Its columns are, in order, \<^verbatim>\<open>Series ID\<close>, \<^verbatim>\<open>Year\<close>,
  \<^verbatim>\<open>Value\<close>, \<^verbatim>\<open>Month\<close> and \<^verbatim>\<open>Year-Month\<close>.
\<close>

record 'v trow =
  t_series_id :: str
  t_year :: str
  t_value :: 'v
  t_month :: int
  t_year_month :: str

text \<open>
  The columns are set one after the other: the month, the numeric value, the label
  \<^verbatim>\<open>df['Year'].astype(str) + "-" + df['Month'].astype(str)\<close>; the footnote and period
  columns are dropped.
\<close>

definition mk_trow :: "flat_row \<Rightarrow> int \<Rightarrow> 'v \<Rightarrow> 'v trow" where
  "mk_trow r m v =
     \<lparr>t_series_id = f_series_id r, t_year = f_year r, t_value = v,
      t_month = m, t_year_month = f_year r @ lit ''-'' @ show_int m\<rparr>"

definition add_columns :: "flat_row list \<Rightarrow> int list \<Rightarrow> 'v list \<Rightarrow> 'v trow list" where
  "add_columns df months vals = map (\<lambda>(r, m, v). mk_trow r m v) (zip df (zip months vals))"

text \<open>
  \<^verbatim>\<open>df.sort_values(by=['Series ID','Year','Month'], ascending=[True,True,True])\<close>:
  pandas sorts on several columns with a stable lexicographic sort; the year is compared
  as the string it is. \<^verbatim>\<open>reset_index(drop=True)\<close> renumbers the row labels, which a list
  does not carry.
\<close>

definition sort_by :: "'v trow \<Rightarrow> str \<times> str \<times> int" where
  "sort_by r = (t_series_id r, t_year r, t_month r)"

definition sort_values :: "'v trow list \<Rightarrow> 'v trow list" where
  "sort_values df = sort_key sort_by df"

definition transformer :: "'v platform \<Rightarrow> flat_row list \<Rightarrow> error + 'v trow list" where
  "transformer p df =
     (case astype_int p (map (\<lambda>r. replace_M (f_period r)) df) of
        Inl e \<Rightarrow> Inl e
      | Inr months \<Rightarrow>
          (case to_numeric p Coerce (map f_value df) of
             Inl e \<Rightarrow> Inl e
           | Inr vals \<Rightarrow> Inr (sort_values (add_columns df months vals))))"

section \<open>The dashboard\<close>

text \<open>
  A data frame object: the rows of the transformed table and the float columns added to
  it later, by name. Frames live in a heap, a variable holds the address of its frame:
  \<^verbatim>\<open>df\<close> refers to the transformed table, and whether the dashboard's column assignment
  reaches that object depends on which object \<^verbatim>\<open>filtered_data\<close> refers to.
\<close>

record 'v frame =
  rows :: "'v trow list"
  extra :: "(str \<times> 'v list) list"

type_synonym 'v heap = "'v frame list"

definition alloc :: "'v frame \<Rightarrow> 'v heap \<Rightarrow> nat \<times> 'v heap" where
  "alloc f h = (length h, h @ [f])"

text \<open>\<^verbatim>\<open>df['Series ID'].unique()\<close>: the distinct ids in order of first appearance.\<close>

definition unique :: "str list \<Rightarrow> str list" where
  "unique xs = rev (remdups (rev xs))"

definition series_list :: "'v frame \<Rightarrow> str list" where
  "series_list df = unique (map t_series_id (rows df))"

text \<open>
  \<^verbatim>\<open>st.sidebar.selectbox("Select Series ID", series_list)\<close> returns the option the user
  chose (the first one by default), and \<^verbatim>\<open>None\<close> when there is no option. The widget
  offers no position outside the options; for such a \<open>choice\<close> the model returns the
  default.
\<close>

definition selectbox :: "str list \<Rightarrow> nat \<Rightarrow> str option" where
  "selectbox options choice =
     (if options = [] then None
      else if choice < length options then Some (options ! choice) else Some (hd options))"

text \<open>\<^verbatim>\<open>df[df['Series ID'] == selected_series]\<close>: a new frame of the rows the mask keeps.\<close>

definition mask_of :: "'v frame \<Rightarrow> str option \<Rightarrow> bool list" where
  "mask_of df selected_series = map (\<lambda>r. Some (t_series_id r) = selected_series) (rows df)"

definition select_rows :: "bool list \<Rightarrow> 'a list \<Rightarrow> 'a list" where
  "select_rows keep xs = map snd (filter fst (zip keep xs))"

definition getitem_mask :: "'v frame \<Rightarrow> bool list \<Rightarrow> 'v frame" where
  "getitem_mask df keep =
     \<lparr>rows = select_rows keep (rows df),
      extra = map (\<lambda>(name, col). (name, select_rows keep col)) (extra df)\<rparr>"

text \<open>\<^verbatim>\<open>frame[name] = column\<close>: replaces the column of that name, or appends a new one.\<close>

fun set_column :: "str \<Rightarrow> 'v list \<Rightarrow> (str \<times> 'v list) list \<Rightarrow> (str \<times> 'v list) list" where
  "set_column name col [] = [(name, col)]"
| "set_column name col ((n, c) # cols) =
     (if n = name then (name, col) # cols else (n, c) # set_column name col cols)"

definition setitem :: "str \<Rightarrow> 'v list \<Rightarrow> 'v frame \<Rightarrow> 'v frame" where
  "setitem name col f = f\<lparr>extra := set_column name col (extra f)\<rparr>"

text \<open>
  What the dashboard leaves behind: the heap, the address of \<^verbatim>\<open>filtered_data\<close> and the
  three metrics as displayed. Headings and charts are not modelled.
  \<^verbatim>\<open>df[mask]\<close> makes a new frame and \<^verbatim>\<open>.copy()\<close> another one, to which \<^verbatim>\<open>filtered_data\<close>
  refers; the rolling average is assigned to that object.
\<close>

record 'v dashboard =
  d_heap :: "'v heap"
  filtered_data :: nat
  metrics :: "(str \<times> str) list"

definition presenter :: "'v platform \<Rightarrow> 'v heap \<Rightarrow> nat \<Rightarrow> str option \<Rightarrow> nat \<Rightarrow> 'v dashboard" where
  "presenter p h df selected_series window_size =
     (let (tmp, h1) = alloc (getitem_mask (h ! df) (mask_of (h ! df) selected_series)) h;
          (fd, h2) = alloc (h1 ! tmp) h1;
          vals = map t_value (rows (h2 ! fd));
          max_val = series_max p vals;
          min_val = series_min p vals;
          avg_val = series_mean p vals;
          h3 = h2[fd := setitem (lit ''Rolling_Avg'') (rolling_mean p window_size vals) (h2 ! fd)]
      in \<lparr>d_heap = h3, filtered_data = fd,
          metrics = [(lit ''Max Value'', format_2f p max_val),
                     (lit ''Min Value'', format_2f p min_val),
                     (lit ''Average Value'', format_2f p avg_val)]\<rparr>)"

section \<open>The whole run\<close>

text \<open>
  A run stops at the status check with the message shown, or raises with the files
  written until then (in the flattening loop, at the CSV dump or in the transformer), or
  completes with the files and the dashboard. \<open>choice\<close> is the position the user picked
  in the series selector and \<open>window_size\<close> the value of the slider.
\<close>

datatype 'v outcome =
    Stopped str
  | Raised error files
  | Completed files "'v dashboard"

definition main :: "'v platform \<Rightarrow> response \<Rightarrow> nat \<Rightarrow> nat \<Rightarrow> 'v outcome" where
  "main p json_data choice window_size =
     (case check_status json_data of
        Some msg \<Rightarrow> Stopped msg
      | None \<Rightarrow>
          (case normalizer p (Results json_data) of
             Inl (e, fs) \<Rightarrow> Raised e fs
           | Inr (bls_list, fs) \<Rightarrow>
               (case to_csv p bls_list fs of
                  Inl (e, fs') \<Rightarrow> Raised e fs'
                | Inr fs' \<Rightarrow>
                    (case transformer p bls_list of
                       Inl e \<Rightarrow> Raised e fs'
                     | Inr t \<Rightarrow>
                         (let h = [\<lparr>rows = t, extra = []\<rparr>];
                              selected_series = selectbox (series_list (h ! 0)) choice
                          in Completed fs' (presenter p h 0 selected_series window_size))))))"

section \<open>Vocabulary of the specification\<close>

text \<open>The twelve monthly period codes.\<close>

definition month_codes :: "str list" where
  "month_codes = map lit [''M01'', ''M02'', ''M03'', ''M04'', ''M05'', ''M06'',
                          ''M07'', ''M08'', ''M09'', ''M10'', ''M11'', ''M12'']"

text \<open>The observations of a series that pass the period test, in their order.\<close>

definition kept :: "series \<Rightarrow> observation list" where
  "kept s = filter (\<lambda>item. monthly (o_period item)) (s_data s)"

text \<open>
  The rows of the monthly observations of a response, series after series in the order
  of the response.
\<close>

definition monthly_rows :: "response \<Rightarrow> flat_row list" where
  "monthly_rows r = concat (map (\<lambda>s. map (mk_row (seriesID s)) (kept s)) (Results r))"

text \<open>
  The flattened table of a response: \<^verbatim>\<open>bls_list\<close> when the loops return, nothing when
  they raise.
\<close>

definition flattened :: "'v platform \<Rightarrow> response \<Rightarrow> flat_row list option" where
  "flattened p r =
     (case normalizer p (Results r) of Inr (bls_list, fs) \<Rightarrow> Some bls_list | Inl e \<Rightarrow> None)"

text \<open>
  The text file of a series, and the condition that the text file of every series of a
  response can be written.
\<close>

definition table_file :: "series \<Rightarrow> file_content" where
  "table_file s = PrettyTable table_header (map (mk_row (seriesID s)) (kept s))"

definition tables_writable :: "'v platform \<Rightarrow> response \<Rightarrow> bool" where
  "tables_writable p r =
     list_all (\<lambda>s. can_write p (seriesID s @ lit ''.txt'') (table_file s)) (Results r)"

text \<open>The condition that the CSV dump of the monthly rows can be written.\<close>

definition csv_writable :: "'v platform \<Rightarrow> response \<Rightarrow> bool" where
  "csv_writable p r = can_write p (lit ''bls_data.csv'') (Csv table_header (monthly_rows r))"

text \<open>The records of \<^verbatim>\<open>bls_data.csv\<close> after a run, if the run wrote the file.\<close>

definition csv_of :: "files \<Rightarrow> flat_row list option" where
  "csv_of fs =
     (case fs (lit ''bls_data.csv'') of Some (Csv header recs) \<Rightarrow> Some recs | _ \<Rightarrow> None)"

fun csv_rows :: "'v outcome \<Rightarrow> flat_row list option" where
  "csv_rows (Stopped msg) = None"
| "csv_rows (Raised e fs) = csv_of fs"
| "csv_rows (Completed fs d) = csv_of fs"

text \<open>Shorthands for writing concrete responses.\<close>

definition obs :: "string \<Rightarrow> string \<Rightarrow> string \<Rightarrow> footnote list \<Rightarrow> observation" where
  "obs y m v fs = \<lparr>o_year = lit y, o_period = lit m, o_value = lit v, o_footnotes = fs\<rparr>"

definition succeeded :: "series list \<Rightarrow> response" where
  "succeeded ss = \<lparr>status = lit ''REQUEST_SUCCEEDED'', message = None, Results = ss\<rparr>"

text \<open>The footnote texts of an observation that are not the empty string.\<close>

definition nonempty_texts :: "observation \<Rightarrow> str list" where
  "nonempty_texts item = filter (\<lambda>t. t \<noteq> []) (map foot_text (o_footnotes item))"

text \<open>
  What the month conversion makes of one cell and of one row: the integer, or \<open>None\<close>
  where the conversion raises.
\<close>

definition int_cell :: "'v platform \<Rightarrow> str \<Rightarrow> int option" where
  "int_cell p s = (case to_int64 p s of Inr n \<Rightarrow> Some n | Inl e \<Rightarrow> None)"

definition month_of :: "'v platform \<Rightarrow> flat_row \<Rightarrow> int option" where
  "month_of p r = int_cell p (replace_M (f_period r))"

text \<open>What the coercion makes of one value cell: the number parsed, or \<^verbatim>\<open>NaN\<close>.\<close>

definition coerced :: "'v platform \<Rightarrow> str \<Rightarrow> 'v" where
  "coerced p s = (case parse_numeric p s of Some v \<Rightarrow> v | None \<Rightarrow> nan p)"

text \<open>
  The transformed row of a flat row whose period converts, and the table of these rows
  before the sort.
\<close>

definition row_of :: "'v platform \<Rightarrow> flat_row \<Rightarrow> 'v trow" where
  "row_of p r = mk_trow r (the (month_of p r)) (coerced p (f_value r))"

definition unsorted :: "'v platform \<Rightarrow> flat_row list \<Rightarrow> 'v trow list" where
  "unsorted p df = map (row_of p) df"

text \<open>The number that a string of ASCII digits denotes.\<close>

definition decimal_value :: "str \<Rightarrow> nat" where
  "decimal_value s = foldl (\<lambda>acc c. 10 * acc + (c - 48)) 0 s"

text \<open>The dashboard of a run that completed.\<close>

fun dashboard_of :: "'v outcome \<Rightarrow> 'v dashboard option" where
  "dashboard_of (Completed fs d) = Some d"
| "dashboard_of (Raised e fs) = None"
| "dashboard_of (Stopped msg) = None"

text \<open>
  A platform for the examples. Files can be written in the working directory itself, not
  through a subdirectory; the Unicode digits known beyond ASCII are the Arabic-Indic
  ones and the limit on integer literals is the default; the numeric library knows whole numbers only, written in ASCII digits, and its
  missing value is \<open>None\<close>. Maximum and minimum skip missing values; the means, which
  leave the whole numbers, are given as missing, and a number is displayed by its digits.
\<close>

definition present :: "int option list \<Rightarrow> int list" where
  "present vs = map the (filter (\<lambda>v. v \<noteq> None) vs)"

definition example :: "int option platform" where
  "example =
     \<lparr>can_write = (\<lambda>path content. chr_code CHR ''/'' \<notin> set path),
      unicode_decimal = (\<lambda>c. if 0x660 \<le> c \<and> c \<le> 0x669 then Some (c - 0x660) else None),
      max_str_digits = 4300,
      parse_numeric =
        (\<lambda>s. if s \<noteq> [] \<and> list_all ascii_digit s then Some (Some (int (decimal_value s)))
             else None),
      nan = None,
      series_max = (\<lambda>vs. if present vs = [] then None else Some (fold max (present vs) (hd (present vs)))),
      series_min = (\<lambda>vs. if present vs = [] then None else Some (fold min (present vs) (hd (present vs)))),
      series_mean = (\<lambda>vs. None),
      rolling_mean = (\<lambda>w vs. map (\<lambda>v. None) vs),
      format_2f = (\<lambda>v. case v of None \<Rightarrow> lit ''nan'' | Some n \<Rightarrow> show_int n @ lit ''.00'')\<rparr>"

definition fr :: "string \<Rightarrow> string \<Rightarrow> string \<Rightarrow> string \<Rightarrow> flat_row" where
  "fr sid y m v =
     \<lparr>f_series_id = lit sid, f_year = lit y, f_period = lit m, f_value = lit v,
      f_footnotes = []\<rparr>"

definition tr :: "string \<Rightarrow> string \<Rightarrow> int \<Rightarrow> 'v \<Rightarrow> 'v trow" where
  "tr sid y m v =
     \<lparr>t_series_id = lit sid, t_year = lit y, t_value = v, t_month = m,
      t_year_month = lit y @ lit ''-'' @ show_int m\<rparr>"

section \<open>The status check\<close>

text \<open>
  C4 (as amended). For every response whose status is not the success marker, the run
  stops at the check: its outcome carries only the message shown, no file and no table,
  and that message is the fixed prefix \<^verbatim>\<open>Error in BLS API response: \<close> followed by the
  server's message when the response has one and by \<^verbatim>\<open>Unknown error\<close> otherwise.
\<close>

theorem stopped_on_failure:
  "status json_data \<noteq> lit ''REQUEST_SUCCEEDED'' \<Longrightarrow>
     main p json_data choice window_size =
       Stopped (lit ''Error in BLS API response: '' @
                (case message json_data of Some m \<Rightarrow> m | None \<Rightarrow> lit ''Unknown error''))"
  by (simp add: main_def check_status_def)

text \<open>A response without a message.\<close>

theorem stopped_on_failure_witness:
  "main example \<lparr>status = lit ''REQUEST_NOT_PROCESSED'', message = None, Results = []\<rparr> 0 3 =
     Stopped (lit ''Error in BLS API response: Unknown error'')"
  using stopped_on_failure
    [of "\<lparr>status = lit ''REQUEST_NOT_PROCESSED'', message = None, Results = []\<rparr>" example 0 3]
  by (simp add: lit_def chr_code_def)

text \<open>
  The claim as written fails where the server sends a message: what is displayed is not
  that message but the prefixed one.
\<close>

theorem displayed_message_counterexample:
  "main example
     \<lparr>status = lit ''REQUEST_FAILED'', message = Some (lit ''Invalid Series''), Results = []\<rparr>
     0 3
     = Stopped (lit ''Error in BLS API response: Invalid Series'') \<and>
   lit ''Error in BLS API response: Invalid Series'' \<noteq> lit ''Invalid Series''"
  by (simp add: main_def check_status_def lit_def chr_code_def)

section \<open>The flattened table\<close>

lemma item_loop_eq:
  "item_loop sid items (bls_list, x) =
     (bls_list @ map (mk_row sid) (filter (\<lambda>item. monthly (o_period item)) items),
      x @ map (mk_row sid) (filter (\<lambda>item. monthly (o_period item)) items))"
  by (induction items arbitrary: bls_list x) simp_all

lemma series_loop_ok:
  "list_all (\<lambda>s. can_write p (seriesID s @ lit ''.txt'') (table_file s)) ss \<Longrightarrow>
     \<exists>fs'. series_loop p ss (bls_list, fs) =
       Inr (bls_list @ concat (map (\<lambda>s. map (mk_row (seriesID s)) (kept s)) ss), fs')"
proof (induction ss arbitrary: bls_list fs)
  case Nil
  then show ?case by simp
next
  case (Cons s ss)
  from Cons.prems have w: "can_write p (seriesID s @ lit ''.txt'') (table_file s)"
    and rest: "list_all (\<lambda>s. can_write p (seriesID s @ lit ''.txt'') (table_file s)) ss"
    by simp_all
  from Cons.IH [OF rest, of "bls_list @ map (mk_row (seriesID s)) (kept s)"
      "fs(seriesID s @ lit ''.txt'' \<mapsto> table_file s)"]
  obtain fs' where
    "series_loop p ss (bls_list @ map (mk_row (seriesID s)) (kept s),
        fs(seriesID s @ lit ''.txt'' \<mapsto> table_file s)) =
     Inr ((bls_list @ map (mk_row (seriesID s)) (kept s)) @
          concat (map (\<lambda>s. map (mk_row (seriesID s)) (kept s)) ss), fs')"
    by blast
  with w show ?case
    by (simp add: item_loop_eq kept_def table_file_def Let_def)
qed

lemma series_loop_bad:
  "\<not> list_all (\<lambda>s. can_write p (seriesID s @ lit ''.txt'') (table_file s)) ss \<Longrightarrow>
     \<exists>path fs'. series_loop p ss (bls_list, fs) = Inl (WriteError path, fs')"
proof (induction ss arbitrary: bls_list fs)
  case Nil
  then show ?case by simp
next
  case (Cons s ss)
  show ?case
  proof (cases "can_write p (seriesID s @ lit ''.txt'') (table_file s)")
    case True
    with Cons.prems
    have "\<not> list_all (\<lambda>s. can_write p (seriesID s @ lit ''.txt'') (table_file s)) ss"
      by simp
    from Cons.IH [OF this, of "bls_list @ map (mk_row (seriesID s)) (kept s)"
      "fs(seriesID s @ lit ''.txt'' \<mapsto> table_file s)"]
    obtain path fs' where
      "series_loop p ss (bls_list @ map (mk_row (seriesID s)) (kept s),
          fs(seriesID s @ lit ''.txt'' \<mapsto> table_file s)) = Inl (WriteError path, fs')"
      by blast
    with True show ?thesis
      by (simp add: item_loop_eq kept_def table_file_def Let_def)
  next
    case False
    then show ?thesis
      by (simp add: item_loop_eq kept_def table_file_def Let_def)
  qed
qed

lemma flattened_eq:
  "flattened p r = (if tables_writable p r then Some (monthly_rows r) else None)"
proof (cases "tables_writable p r")
  case True
  from series_loop_ok [OF True [unfolded tables_writable_def], of "[]" Map.empty]
  show ?thesis using True
    by (auto simp: flattened_def normalizer_def monthly_rows_def)
next
  case False
  from series_loop_bad [OF False [unfolded tables_writable_def], of "[]" Map.empty]
  show ?thesis using False
    by (auto simp: flattened_def normalizer_def)
qed



lemma monthly_M: "monthly (c # cs) \<Longrightarrow> c = 77"
  by (auto simp: monthly_def lit_def chr_code_def)

lemma monthly_nonempty: "monthly m \<Longrightarrow> m \<noteq> []"
  by (auto simp: monthly_def lit_def)

lemma mk_row_sel [simp]:
  "f_series_id (mk_row sid item) = sid"
  "f_year (mk_row sid item) = o_year item"
  "f_period (mk_row sid item) = o_period item"
  "f_value (mk_row sid item) = o_value item"
  "f_footnotes (mk_row sid item) = footnotes_of item"
  by (simp_all add: mk_row_def)

lemma kept_iff [simp]: "item \<in> set (kept s) \<longleftrightarrow> item \<in> set (s_data s) \<and> monthly (o_period item)"
  by (auto simp: kept_def)

lemma monthly_rows_periods: "row \<in> set (monthly_rows r) \<Longrightarrow> monthly (f_period row)"
  by (auto simp: monthly_rows_def)



text \<open>Unfolding rules for running the flattening on concrete responses.\<close>

lemmas eval_flattened =
  flattened_eq tables_writable_def table_file_def monthly_rows_def kept_def succeeded_def
  obs_def monthly_def mk_row_def footnotes_of_def footnote_texts_def example_def fr_def
  lit_def chr_code_def





section \<open>The footnote field\<close>

lemma footnotes_of_nonempty:
  assumes "\<forall>f \<in> set (o_footnotes item). has_text f \<longrightarrow> foot_text f \<noteq> []"
  shows "footnotes_of item = join (lit '', '') (nonempty_texts item)"
proof -
  have no_text: "\<not> has_text f \<Longrightarrow> foot_text f = []" for f
    by (cases f) (auto split: option.splits)
  have "fs = o_footnotes item \<Longrightarrow>
        map foot_text (filter has_text fs) = filter (\<lambda>t. t \<noteq> []) (map foot_text fs)" for fs
    using assms
  proof (induction fs arbitrary: item)
    case Nil
    then show ?case by simp
  next
    case (Cons f fs)
    from Cons.prems have tail: "\<forall>f \<in> set fs. has_text f \<longrightarrow> foot_text f \<noteq> []"
      by (metis list.set_intros(2))
    have "map foot_text (filter has_text fs) = filter (\<lambda>t. t \<noteq> []) (map foot_text fs)"
      using Cons.IH [of "item\<lparr>o_footnotes := fs\<rparr>"] tail by simp
    moreover from Cons.prems have "has_text f \<longrightarrow> foot_text f \<noteq> []"
      by (metis list.set_intros(1))
    ultimately show ?case using no_text [of f] by auto
  qed
  then show ?thesis
    by (simp add: footnotes_of_def footnote_texts_def nonempty_texts_def)
qed

text \<open>
  C5 (as amended). The footnote fields of the flattened table are, row by row, the
  texts of the footnotes that are non-empty objects with a \<^verbatim>\<open>text\<close> entry, joined with
  a comma and a space; a text that is the empty string is joined like any other. When
  the footnote list of an observation is empty the field is the empty string, and when
  none of the texts is empty the field is the non-empty texts joined. No footnote list
  raises: the flattening fails to return a table only where a text file cannot be
  written.
\<close>

theorem footnote_field:
  "(\<forall>t. flattened p r = Some t \<longrightarrow>
      map f_footnotes t =
        map (\<lambda>item. join (lit '', '') (map foot_text (filter has_text (o_footnotes item))))
            (concat (map kept (Results r)))) \<and>
   (flattened p r = None \<longrightarrow> \<not> tables_writable p r) \<and>
   (\<forall>s \<in> set (Results r). \<forall>item \<in> set (kept s).
      (o_footnotes item = [] \<longrightarrow> f_footnotes (mk_row (seriesID s) item) = []) \<and>
      ((\<forall>f \<in> set (o_footnotes item). has_text f \<longrightarrow> foot_text f \<noteq> []) \<longrightarrow>
         f_footnotes (mk_row (seriesID s) item) = join (lit '', '') (nonempty_texts item)))"
proof (intro conjI ballI impI allI)
  fix t assume "flattened p r = Some t"
  then have t: "t = monthly_rows r"
    by (simp add: flattened_eq split: if_splits)
  show "map f_footnotes t =
     map (\<lambda>item. join (lit '', '') (map foot_text (filter has_text (o_footnotes item))))
         (concat (map kept (Results r)))"
    unfolding t
    by (simp add: monthly_rows_def map_concat comp_def footnotes_of_def footnote_texts_def)
next
  assume "flattened p r = None"
  then show "\<not> tables_writable p r"
    by (simp add: flattened_eq split: if_splits)
next
  fix s :: series and item :: observation
  assume "o_footnotes item = []"
  then show "f_footnotes (mk_row (seriesID s) item) = []"
    by (simp add: footnotes_of_def footnote_texts_def)
next
  fix s :: series and item :: observation
  assume "\<forall>f \<in> set (o_footnotes item). has_text f \<longrightarrow> foot_text f \<noteq> []"
  then show "f_footnotes (mk_row (seriesID s) item) = join (lit '', '') (nonempty_texts item)"
    by (simp add: footnotes_of_nonempty)
qed

text \<open>Two footnotes with a text among four, and an empty footnote list.\<close>

theorem footnote_field_witness:
  "f_footnotes (mk_row (lit ''CUUR0000SA0'')
      (obs ''2014'' ''M11'' ''236.151''
         [Obj [(lit ''code'', lit ''R''), (lit ''text'', lit ''Revised'')],
          Obj [], Null,
          Obj [(lit ''code'', lit ''P''), (lit ''text'', lit ''Preliminary'')]]))
     = lit ''Revised, Preliminary'' \<and>
   f_footnotes (mk_row (lit ''CUUR0000SA0'') (obs ''2014'' ''M12'' ''234.812'' [])) = []"
proof -
  let ?a = "obs ''2014'' ''M11'' ''236.151''
         [Obj [(lit ''code'', lit ''R''), (lit ''text'', lit ''Revised'')],
          Obj [], Null,
          Obj [(lit ''code'', lit ''P''), (lit ''text'', lit ''Preliminary'')]]"
  let ?b = "obs ''2014'' ''M12'' ''234.812'' []"
  let ?s = "\<lparr>seriesID = lit ''CUUR0000SA0'', s_data = [?a, ?b]\<rparr>"
  have s: "?s \<in> set (Results (succeeded [?s]))"
    by (simp add: succeeded_def)
  have a: "?a \<in> set (kept ?s)" and b: "?b \<in> set (kept ?s)"
    by (simp_all add: kept_def obs_def monthly_def lit_def chr_code_def)
  have ne: "\<forall>f \<in> set (o_footnotes ?a). has_text f \<longrightarrow> foot_text f \<noteq> []"
    by (simp add: obs_def lit_def chr_code_def)
  have e: "o_footnotes ?b = []"
    by (simp add: obs_def)
  from footnote_field [of example "succeeded [?s]"] s a ne
  have "f_footnotes (mk_row (seriesID ?s) ?a) = join (lit '', '') (nonempty_texts ?a)"
    by blast
  moreover from footnote_field [of example "succeeded [?s]"] s b e
  have "f_footnotes (mk_row (seriesID ?s) ?b) = []"
    by blast
  ultimately show ?thesis
    by (simp add: nonempty_texts_def obs_def lit_def chr_code_def)
qed

text \<open>
  The claim as written, the non-empty texts joined, fails on a footnote whose text is the
  empty string: the code keeps it, and the field starts with the separator.
\<close>

theorem empty_text_counterexample:
  "map_option (map f_footnotes) (flattened example (succeeded [\<lparr>seriesID = lit ''CUUR0000SA0'',
       s_data = [obs ''2014'' ''M12'' ''234.812''
                   [Obj [(lit ''code'', []), (lit ''text'', [])],
                    Obj [(lit ''code'', lit ''P''), (lit ''text'', lit ''Preliminary'')]]]\<rparr>]))
     = Some [lit '', Preliminary''] \<and>
   join (lit '', '') (nonempty_texts (obs ''2014'' ''M12'' ''234.812''
                   [Obj [(lit ''code'', []), (lit ''text'', [])],
                    Obj [(lit ''code'', lit ''P''), (lit ''text'', lit ''Preliminary'')]]))
     = lit ''Preliminary''"
  by (simp add: eval_flattened nonempty_texts_def)

section \<open>The CSV dump\<close>

lemma txt_not_csv: "sid @ lit ''.txt'' \<noteq> lit ''bls_data.csv''"
proof
  assume "sid @ lit ''.txt'' = lit ''bls_data.csv''"
  then have "last (sid @ lit ''.txt'') = last (lit ''bls_data.csv'')" by simp
  then show False by (simp add: lit_def chr_code_def)
qed

lemma series_loop_csv:
  "fs (lit ''bls_data.csv'') = None \<Longrightarrow>
     (case series_loop p ss (bls_list, fs) of
        Inl (e, fs') \<Rightarrow> fs' (lit ''bls_data.csv'') = None
      | Inr (b, fs') \<Rightarrow> fs' (lit ''bls_data.csv'') = None)"
proof (induction ss arbitrary: bls_list fs)
  case Nil
  then show ?case by simp
next
  case (Cons s ss)
  have k: "(fs(seriesID s @ lit ''.txt'' \<mapsto> c)) (lit ''bls_data.csv'') = None" for c
    using Cons.prems txt_not_csv [of "seriesID s"] by simp
  have "case series_loop p ss (b, fs(seriesID s @ lit ''.txt'' \<mapsto> c)) of
          Inl (e, fs') \<Rightarrow> fs' (lit ''bls_data.csv'') = None
        | Inr (b, fs') \<Rightarrow> fs' (lit ''bls_data.csv'') = None" for b c
    by (rule Cons.IH) (rule k)
  with Cons.prems show ?case
    by (simp add: Let_def item_loop_eq)
qed

lemma normalizer_cases:
  "(tables_writable p r \<and>
      (\<exists>fs. normalizer p (Results r) = Inr (monthly_rows r, fs) \<and> fs (lit ''bls_data.csv'') = None)) \<or>
   (\<not> tables_writable p r \<and>
      (\<exists>path fs. normalizer p (Results r) = Inl (WriteError path, fs) \<and>
          fs (lit ''bls_data.csv'') = None))"
proof (cases "tables_writable p r")
  case True
  from series_loop_ok [OF True [unfolded tables_writable_def], of "[]" Map.empty]
  obtain fs where n: "normalizer p (Results r) = Inr (monthly_rows r, fs)"
    by (auto simp: normalizer_def monthly_rows_def)
  from series_loop_csv [of Map.empty p "Results r" "[]"] n
  have "fs (lit ''bls_data.csv'') = None"
    by (simp add: normalizer_def)
  with True n show ?thesis by blast
next
  case False
  from series_loop_bad [OF False [unfolded tables_writable_def], of "[]" Map.empty]
  obtain path fs where n: "normalizer p (Results r) = Inl (WriteError path, fs)"
    by (auto simp: normalizer_def)
  from series_loop_csv [of Map.empty p "Results r" "[]"] n
  have "fs (lit ''bls_data.csv'') = None"
    by (simp add: normalizer_def)
  with False n show ?thesis by blast
qed

lemma count_series_rows:
  "length (filter (\<lambda>row. f_series_id row = sid) (monthly_rows r)) =
   length (concat (map kept (filter (\<lambda>s. seriesID s = sid) (Results r))))"
proof -
  have "length (filter (\<lambda>row. f_series_id row = sid)
             (concat (map (\<lambda>s. map (mk_row (seriesID s)) (kept s)) ss))) =
        length (concat (map kept (filter (\<lambda>s. seriesID s = sid) ss)))" for ss
  proof (induction ss)
    case Nil
    then show ?case by simp
  next
    case (Cons s ss)
    have "filter (\<lambda>row. f_series_id row = sid) (map (mk_row (seriesID s)) (kept s)) =
          (if seriesID s = sid then map (mk_row (seriesID s)) (kept s) else [])"
      by (simp add: filter_map comp_def)
    with Cons.IH show ?case by simp
  qed
  then show ?thesis by (simp add: monthly_rows_def)
qed

lemma csv_rows_main:
  assumes "status r = lit ''REQUEST_SUCCEEDED''"
  shows "csv_rows (main p r choice w) =
     (if tables_writable p r \<and> csv_writable p r then Some (monthly_rows r) else None)"
proof -
  from assms have c: "check_status r = None" by (simp add: check_status_def)
  from normalizer_cases [of p r] show ?thesis
  proof (elim disjE conjE exE)
    fix fs
    assume tw: "tables_writable p r"
      and n: "normalizer p (Results r) = Inr (monthly_rows r, fs)"
      and fs: "fs (lit ''bls_data.csv'') = None"
    show ?thesis
    proof (cases "csv_writable p r")
      case True
      with tw n c show ?thesis
        by (simp add: main_def to_csv_def csv_writable_def csv_of_def Let_def
            split: sum.splits)
    next
      case False
      with tw n c fs show ?thesis
        by (simp add: main_def to_csv_def csv_writable_def csv_of_def Let_def)
    qed
  next
    fix path fs
    assume tw: "\<not> tables_writable p r"
      and n: "normalizer p (Results r) = Inl (WriteError path, fs)"
      and fs: "fs (lit ''bls_data.csv'') = None"
    with c show ?thesis
      by (simp add: main_def csv_of_def)
  qed
qed

text \<open>
  C9 (as amended). For every response with the success status, \<^verbatim>\<open>bls_data.csv\<close> exists
  after the run exactly when the text file of every series and the CSV file itself could
  be written; it then holds the flattened table, as it was before any transformation and
  whatever happens later in the run, and for every series id the number of its records
  with that id is the number of observations, of the series with that id, that pass the
  monthly-period test. When a text file cannot be written the run raises before the
  dump and there is no CSV file.
\<close>

theorem csv_row_count:
  "status r = lit ''REQUEST_SUCCEEDED'' \<Longrightarrow>
     csv_rows (main p r choice w) =
       (if tables_writable p r \<and> csv_writable p r then Some (monthly_rows r) else None) \<and>
     (tables_writable p r \<longrightarrow> flattened p r = Some (monthly_rows r)) \<and>
     (\<forall>sid. length (filter (\<lambda>row. f_series_id row = sid) (monthly_rows r)) =
            length (concat (map kept (filter (\<lambda>s. seriesID s = sid) (Results r)))))"
  by (simp add: csv_rows_main flattened_eq count_series_rows)

text \<open>Two series, one with a thirteenth period that is not dumped.\<close>

theorem csv_row_count_witness:
  "csv_rows (main example (succeeded [\<lparr>seriesID = lit ''CUUR0000SA0'',
        s_data = [obs ''2011'' ''M13'' ''224.939'' [Obj []],
                  obs ''2011'' ''M12'' ''225.672'' [Obj []],
                  obs ''2011'' ''M11'' ''226.230'' [Obj []]]\<rparr>,
      \<lparr>seriesID = lit ''SUUR0000SA0'',
        s_data = [obs ''2011'' ''M12'' ''127.456'' [Obj []]]\<rparr>]) 0 3)
   = Some [fr ''CUUR0000SA0'' ''2011'' ''M12'' ''225.672'',
           fr ''CUUR0000SA0'' ''2011'' ''M11'' ''226.230'',
           fr ''SUUR0000SA0'' ''2011'' ''M12'' ''127.456'']"
proof -
  let ?r = "succeeded [\<lparr>seriesID = lit ''CUUR0000SA0'',
        s_data = [obs ''2011'' ''M13'' ''224.939'' [Obj []],
                  obs ''2011'' ''M12'' ''225.672'' [Obj []],
                  obs ''2011'' ''M11'' ''226.230'' [Obj []]]\<rparr>,
      \<lparr>seriesID = lit ''SUUR0000SA0'',
        s_data = [obs ''2011'' ''M12'' ''127.456'' [Obj []]]\<rparr>]"
  have ok: "status ?r = lit ''REQUEST_SUCCEEDED''"
    by (simp add: succeeded_def)
  have w: "tables_writable example ?r" "csv_writable example ?r"
    by (simp_all add: tables_writable_def csv_writable_def succeeded_def example_def
        lit_def chr_code_def)
  have rows: "monthly_rows ?r =
      [fr ''CUUR0000SA0'' ''2011'' ''M12'' ''225.672'',
       fr ''CUUR0000SA0'' ''2011'' ''M11'' ''226.230'',
       fr ''SUUR0000SA0'' ''2011'' ''M12'' ''127.456'']"
    by (simp add: monthly_rows_def kept_def succeeded_def obs_def monthly_def mk_row_def
        footnotes_of_def footnote_texts_def fr_def lit_def chr_code_def)
  from csv_row_count [OF ok, of example 0 3] w rows show ?thesis
    by simp
qed

text \<open>
  The claim as written fails on a series whose text file cannot be written, here a
  series id with a slash, which names a file in a directory that does not exist: the run
  raises at \<^verbatim>\<open>open\<close>, before the dump, and no CSV file has a row for the observation
  that passed the monthly-period test.
\<close>

theorem no_csv_counterexample:
  "main example (succeeded [\<lparr>seriesID = lit ''a/b'',
        s_data = [obs ''2011'' ''M12'' ''225.672'' [Obj []]]\<rparr>]) 0 3
     = Raised (WriteError (lit ''a/b.txt'')) Map.empty \<and>
   csv_rows (main example (succeeded [\<lparr>seriesID = lit ''a/b'',
        s_data = [obs ''2011'' ''M12'' ''225.672'' [Obj []]]\<rparr>]) 0 3) = None \<and>
   length (kept \<lparr>seriesID = lit ''a/b'',
        s_data = [obs ''2011'' ''M12'' ''225.672'' [Obj []]]\<rparr>) = 1"
  by (simp add: main_def check_status_def normalizer_def succeeded_def obs_def Let_def
      monthly_def example_def csv_of_def kept_def lit_def chr_code_def)

section \<open>The transformed table\<close>

lemma astype_int_ok:
  "\<forall>s \<in> set ss. int_cell p s \<noteq> None \<Longrightarrow>
     astype_int p ss = Inr (map (\<lambda>s. the (int_cell p s)) ss)"
  by (induction ss) (auto simp: int_cell_def split: sum.splits)

lemma astype_int_Inr:
  "astype_int p ss = Inr ns \<Longrightarrow> \<forall>s \<in> set ss. int_cell p s \<noteq> None"
  by (induction ss arbitrary: ns) (auto simp: int_cell_def split: sum.splits)

lemma astype_int_bad:
  "\<exists>s \<in> set ss. int_cell p s = None \<Longrightarrow> isl (astype_int p ss)"
  by (cases "astype_int p ss") (auto dest: astype_int_Inr)

lemma int_cell_py_int: "int_cell p s = Some n \<Longrightarrow> py_int p s = Some n"
  by (auto simp: int_cell_def to_int64_def split: option.splits if_splits)

lemma to_numeric_coerce: "to_numeric p Coerce col = Inr (map (coerced p) col)"
  by (induction col) (simp_all add: coerced_def split: option.splits)

lemma to_numeric_raise:
  "isl (to_numeric p Raise col) \<longleftrightarrow> (\<exists>s \<in> set col. parse_numeric p s = None)"
  by (induction col) (auto split: option.splits sum.splits)

lemma add_columns_map:
  "add_columns df (map f df) (map g df) = map (\<lambda>r. mk_trow r (f r) (g r)) df"
  by (induction df) (simp_all add: add_columns_def)

lemma transformer_ok:
  assumes "\<forall>r \<in> set df. month_of p r \<noteq> None"
  shows "transformer p df = Inr (sort_values (unsorted p df))"
proof -
  from assms have "\<forall>s \<in> set (map (\<lambda>r. replace_M (f_period r)) df). int_cell p s \<noteq> None"
    by (simp add: month_of_def)
  from astype_int_ok [OF this]
  have "astype_int p (map (\<lambda>r. replace_M (f_period r)) df) =
          Inr (map (\<lambda>r. the (month_of p r)) df)"
    by (simp add: month_of_def comp_def)
  moreover have "to_numeric p Coerce (map f_value df) = Inr (map (\<lambda>r. coerced p (f_value r)) df)"
    by (simp add: to_numeric_coerce comp_def)
  ultimately show ?thesis
    by (simp add: transformer_def add_columns_map unsorted_def row_of_def [abs_def])
qed

lemma transformer_bad:
  assumes "\<exists>r \<in> set df. month_of p r = None"
  shows "isl (transformer p df)"
proof -
  from assms have "\<exists>s \<in> set (map (\<lambda>r. replace_M (f_period r)) df). int_cell p s = None"
    by (simp add: month_of_def)
  from astype_int_bad [OF this] show ?thesis
    by (auto simp: transformer_def split: sum.splits)
qed

lemma transformer_Inl:
  "isl (transformer p df) \<longleftrightarrow> (\<exists>r \<in> set df. month_of p r = None)"
proof
  assume "isl (transformer p df)"
  show "\<exists>r \<in> set df. month_of p r = None"
  proof (rule ccontr)
    assume "\<not> (\<exists>r \<in> set df. month_of p r = None)"
    then have "\<forall>r \<in> set df. month_of p r \<noteq> None" by simp
    from transformer_ok [OF this] \<open>isl (transformer p df)\<close>
    show False by simp
  qed
next
  assume "\<exists>r \<in> set df. month_of p r = None"
  then show "isl (transformer p df)" by (rule transformer_bad)
qed

lemma transformer_Inr:
  assumes "transformer p df = Inr t"
  shows "(\<forall>r \<in> set df. month_of p r \<noteq> None) \<and> t = sort_values (unsorted p df)"
proof -
  from assms have "\<not> isl (transformer p df)" by simp
  then have ok: "\<forall>r \<in> set df. month_of p r \<noteq> None"
    by (simp add: transformer_Inl)
  from transformer_ok [OF ok] assms show ?thesis
    using ok by simp
qed

lemma sort_by_same_series:
  "t_series_id a = t_series_id b \<Longrightarrow>
     sort_by a < sort_by b \<longleftrightarrow> (t_year a, t_month a) < (t_year b, t_month b)"
  by (auto simp: sort_by_def less_prod_def)

lemma sorted_values_precede:
  assumes "sorted (map sort_by t)" "i < length t" "j < length t"
    "t_series_id (t ! i) = t_series_id (t ! j)"
    "(t_year (t ! i), t_month (t ! i)) < (t_year (t ! j), t_month (t ! j))"
  shows "i < j"
proof (rule ccontr)
  assume "\<not> i < j"
  then have "j \<le> i" by simp
  with assms(1,2) have "map sort_by t ! j \<le> map sort_by t ! i"
    by (simp add: sorted_iff_nth_mono del: nth_map)
  with assms(2,3) have "sort_by (t ! j) \<le> sort_by (t ! i)" by simp
  moreover from assms(4,5) have "sort_by (t ! i) < sort_by (t ! j)"
    by (simp add: sort_by_same_series)
  ultimately show False by simp
qed

text \<open>Strings of ASCII digits of one length: the string order is the numeric order.\<close>

lemma decimal_value_Cons:
  "decimal_value (c # cs) = (c - 48) * 10 ^ length cs + decimal_value cs"
proof -
  have "foldl (\<lambda>acc c. 10 * acc + (c - 48)) a cs =
        a * 10 ^ length cs + foldl (\<lambda>acc c. 10 * acc + (c - 48)) 0 cs" for a :: nat
  proof (induction cs arbitrary: a)
    case Nil
    then show ?case by simp
  next
    case (Cons d ds)
    have "foldl (\<lambda>acc c. 10 * acc + (c - 48)) a (d # ds) =
          (10 * a + (d - 48)) * 10 ^ length ds + foldl (\<lambda>acc c. 10 * acc + (c - 48)) 0 ds"
      using Cons.IH [of "10 * a + (d - 48)"] by simp
    also have "\<dots> = a * 10 ^ length (d # ds) +
          ((d - 48) * 10 ^ length ds + foldl (\<lambda>acc c. 10 * acc + (c - 48)) 0 ds)"
      by (simp add: algebra_simps)
    also have "(d - 48) * 10 ^ length ds + foldl (\<lambda>acc c. 10 * acc + (c - 48)) 0 ds =
          foldl (\<lambda>acc c. 10 * acc + (c - 48)) 0 (d # ds)"
      using Cons.IH [of "d - 48"] by simp
    finally show ?case .
  qed
  from this [of "c - 48"] show ?thesis
    by (simp add: decimal_value_def)
qed

lemma decimal_value_bound:
  "list_all ascii_digit s \<Longrightarrow> decimal_value s < 10 ^ length s"
proof (induction s)
  case Nil
  then show ?case by (simp add: decimal_value_def)
next
  case (Cons c cs)
  then have "ascii_digit c" and r: "decimal_value cs < 10 ^ length cs"
    by simp_all
  then have c: "c - 48 \<le> 9"
    unfolding ascii_digit_def by arith
  have "decimal_value (c # cs) < (c - 48) * 10 ^ length cs + 10 ^ length cs"
    using r by (simp add: decimal_value_Cons)
  also have "\<dots> = (c - 48 + 1) * 10 ^ length cs"
    by (simp add: algebra_simps)
  also have "\<dots> \<le> 10 * 10 ^ length cs"
    using c by (intro mult_le_mono1) simp
  finally show ?case by simp
qed

lemma leading_digit_order:
  fixes d1 d2 r1 r2 n :: nat
  assumes "r1 < n" "r2 < n"
  shows "d1 * n + r1 < d2 * n + r2 \<longleftrightarrow> d1 < d2 \<or> (d1 = d2 \<and> r1 < r2)"
proof -
  have less: "a * n + x < b * n + y" if "a < b" "x < n" for a b x y :: nat
  proof -
    have "a * n + x < a * n + n" using that(2) by simp
    also have "\<dots> = (a + 1) * n" by (simp add: algebra_simps)
    also have "\<dots> \<le> b * n" using that(1) by (intro mult_le_mono1) simp
    also have "\<dots> \<le> b * n + y" by simp
    finally show ?thesis .
  qed
  consider "d1 < d2" | "d1 = d2" | "d2 < d1" by arith
  then show ?thesis
  proof cases
    case 1
    with less [OF 1 assms(1), of r2] show ?thesis by simp
  next
    case 2
    then show ?thesis by simp
  next
    case 3
    from less [OF 3 assms(2), of r1] 3 show ?thesis by simp
  qed
qed

lemma digit_strings_order:
  assumes "length y1 = length y2" "list_all ascii_digit y1" "list_all ascii_digit y2"
  shows "y1 < y2 \<longleftrightarrow> decimal_value y1 < decimal_value y2"
  using assms
proof (induction y1 y2 rule: list_induct2)
  case Nil
  then show ?case by simp
next
  case (Cons c1 y1 c2 y2)
  then have ih: "y1 < y2 \<longleftrightarrow> decimal_value y1 < decimal_value y2"
    and d: "ascii_digit c1" "ascii_digit c2" "list_all ascii_digit y1" "list_all ascii_digit y2"
    by simp_all
  from d(1,2) have c: "48 \<le> c1" "48 \<le> c2"
    by (simp_all add: ascii_digit_def)
  from decimal_value_bound [OF d(3)] decimal_value_bound [OF d(4)] Cons.hyps
  have b: "decimal_value y1 < 10 ^ length y2" "decimal_value y2 < 10 ^ length y2"
    by simp_all
  have "decimal_value (c1 # y1) < decimal_value (c2 # y2) \<longleftrightarrow>
        c1 - 48 < c2 - 48 \<or> (c1 - 48 = c2 - 48 \<and> decimal_value y1 < decimal_value y2)"
    using leading_digit_order [OF b, of "c1 - 48" "c2 - 48"] Cons.hyps
    by (simp add: decimal_value_Cons)
  also have "\<dots> \<longleftrightarrow> c1 < c2 \<or> (c1 = c2 \<and> y1 < y2)"
    using c ih by auto
  finally show ?case by simp
qed


lemma digits_from_digits:
  "list_all ascii_digit s \<Longrightarrow>
     digits_from p acc s = Some (foldl (\<lambda>acc c. 10 * acc + (c - 48)) acc s)"
  by (induction p acc s rule: digits_from.induct) (simp_all add: digit_value_def)

lemma strip_digits:
  assumes "list_all ascii_digit s"
  shows "strip s = s"
proof -
  have ns: "ascii_digit c \<Longrightarrow> \<not> is_space c" for c
    by (auto simp: ascii_digit_def is_space_def unicode_space_def)
  have d: "dropWhile is_space xs = xs" if "list_all ascii_digit xs" for xs
    using that ns by (cases xs) simp_all
  from assms have "list_all ascii_digit (rev s)"
    by (simp add: list_all_iff)
  with d [OF assms] d [of "rev s"] show ?thesis
    by (simp add: strip_def)
qed

lemma py_int_digits:
  assumes "s \<noteq> []" "list_all ascii_digit s" "length s \<le> 640"
  shows "py_int p s = Some (int (decimal_value s))"
proof -
  from assms obtain c cs where s: "s = c # cs" by (cases s) auto
  with assms(2) have c: "ascii_digit c" and cs: "list_all ascii_digit cs" by simp_all
  from c have sign: "c \<noteq> chr_code CHR ''-''" "c \<noteq> chr_code CHR ''+''"
    by (auto simp: ascii_digit_def chr_code_def)
  have "length (filter (\<lambda>c. c \<noteq> chr_code CHR ''_'') s) \<le> length s"
    by (rule length_filter_le)
  with assms(3) have "digits_allowed p (length (filter (\<lambda>c. c \<noteq> chr_code CHR ''_'') (c # cs)))"
    by (simp add: digits_allowed_def s)
  then have "unsigned_int p (c # cs) = Some (decimal_value (c # cs))"
    using c digits_from_digits [OF cs, of p "c - 48"]
    by (simp add: unsigned_int_def digit_value_def decimal_value_def)
  with sign show ?thesis
    unfolding s [symmetric] py_int_def strip_digits [OF assms(2)]
    by (simp add: s)
qed

text \<open>Unfolding rules for running the transformer on concrete rows.\<close>

lemmas eval_transformer =
  transformer_def to_int64_def in_int64_def replace_M_def py_int_def strip_def is_space_def
  unicode_space_def unsigned_int_def digits_allowed_def digit_value_def ascii_digit_def
  add_columns_def mk_trow_def sort_values_def sort_by_def show_int_def show_nat.simps decimal_value_def
  example_def fr_def tr_def lit_def chr_code_def Let_def

text \<open>
  C3 (as amended). When the transformer returns a table, the table is sorted ascending
  by (series id, year, month), the year being compared as the string it is, in the
  lexicographic order of code points; of two rows with the same series id, the one with
  the smaller (year, month) pair in that order comes first; the table is a permutation
  of the rows built before the sort, and the sort is stable: the rows of any one key are
  in the order they had before. On years written with the same number of ASCII digits
  the string order is the order of the numbers, and \<open>int\<close> reads such a year (of at
  most 640 digits) as that number. The transformer does return a table whenever every period converts to a
  month.
\<close>

theorem transformer_sorted:
  "(\<forall>t. transformer p df = Inr t \<longrightarrow>
      sorted (map sort_by t) \<and>
      (\<forall>i j. i < length t \<and> j < length t \<and> t_series_id (t ! i) = t_series_id (t ! j) \<and>
             (t_year (t ! i), t_month (t ! i)) < (t_year (t ! j), t_month (t ! j))
             \<longrightarrow> i < j) \<and>
      mset t = mset (unsorted p df) \<and>
      (\<forall>k. filter (\<lambda>r. sort_by r = k) t = filter (\<lambda>r. sort_by r = k) (unsorted p df))) \<and>
   ((\<forall>r \<in> set df. month_of p r \<noteq> None) \<longrightarrow> (\<exists>t. transformer p df = Inr t)) \<and>
   (\<forall>y1 y2. length y1 = length y2 \<and> list_all ascii_digit y1 \<and> list_all ascii_digit y2 \<longrightarrow>
      (y1 < y2 \<longleftrightarrow> decimal_value y1 < decimal_value y2)) \<and>
   (\<forall>y. y \<noteq> [] \<and> list_all ascii_digit y \<and> length y \<le> 640 \<longrightarrow>
      py_int p y = Some (int (decimal_value y)))"
proof (intro conjI allI impI)
  fix t assume t: "transformer p df = Inr t"
  from transformer_Inr [OF t] have eq: "t = sort_key sort_by (unsorted p df)"
    by (simp add: sort_values_def)
  show sorted: "sorted (map sort_by t)"
    unfolding eq by (rule sorted_sort_key)
  show "mset t = mset (unsorted p df)"
    unfolding eq by simp
  show "filter (\<lambda>r. sort_by r = k) t = filter (\<lambda>r. sort_by r = k) (unsorted p df)" for k
    unfolding eq by (rule sort_key_stable)
  show "i < j"
    if "i < length t \<and> j < length t \<and> t_series_id (t ! i) = t_series_id (t ! j) \<and>
        (t_year (t ! i), t_month (t ! i)) < (t_year (t ! j), t_month (t ! j))" for i j
    using sorted that by (blast intro: sorted_values_precede)
next
  assume "\<forall>r \<in> set df. month_of p r \<noteq> None"
  from transformer_ok [OF this]
  show "\<exists>t. transformer p df = Inr t" by blast
next
  fix y1 y2 :: str
  assume "length y1 = length y2 \<and> list_all ascii_digit y1 \<and> list_all ascii_digit y2"
  then show "y1 < y2 \<longleftrightarrow> decimal_value y1 < decimal_value y2"
    by (simp add: digit_strings_order)
next
  fix y :: str assume "y \<noteq> [] \<and> list_all ascii_digit y \<and> length y \<le> 640"
  then show "py_int p y = Some (int (decimal_value y))"
    by (simp add: py_int_digits)
qed

text \<open>Four rows of two series and two years, out of order in the response.\<close>

theorem transformer_sorted_witness:
  "transformer example
     [fr ''SUUR0000SA0'' ''2011'' ''M02'' ''127'',
      fr ''CUUR0000SA0'' ''2012'' ''M01'' ''226'',
      fr ''CUUR0000SA0'' ''2011'' ''M12'' ''225'',
      fr ''CUUR0000SA0'' ''2011'' ''M02'' ''221'']
   = Inr [tr ''CUUR0000SA0'' ''2011'' 2 (Some 221),
          tr ''CUUR0000SA0'' ''2011'' 12 (Some 225),
          tr ''CUUR0000SA0'' ''2012'' 1 (Some 226),
          tr ''SUUR0000SA0'' ''2011'' 2 (Some 127)] \<and>
   sorted (map sort_by
         [tr ''CUUR0000SA0'' ''2011'' 2 (Some (221 :: int)),
          tr ''CUUR0000SA0'' ''2011'' 12 (Some 225),
          tr ''CUUR0000SA0'' ''2012'' 1 (Some 226),
          tr ''SUUR0000SA0'' ''2011'' 2 (Some 127)])"
proof -
  let ?df = "[fr ''SUUR0000SA0'' ''2011'' ''M02'' ''127'',
      fr ''CUUR0000SA0'' ''2012'' ''M01'' ''226'',
      fr ''CUUR0000SA0'' ''2011'' ''M12'' ''225'',
      fr ''CUUR0000SA0'' ''2011'' ''M02'' ''221'']"
  let ?t = "[tr ''CUUR0000SA0'' ''2011'' 2 (Some (221 :: int)),
          tr ''CUUR0000SA0'' ''2011'' 12 (Some 225),
          tr ''CUUR0000SA0'' ''2012'' 1 (Some 226),
          tr ''SUUR0000SA0'' ''2011'' 2 (Some 127)]"
  have run: "transformer example ?df = Inr ?t"
    by (simp add: eval_transformer)
  with transformer_sorted [of example ?df] have "sorted (map sort_by ?t)"
    by blast
  with run show ?thesis by (rule conjI)
qed

text \<open>
  The claim as written, the smaller (year, month) pair first, fails for years of
  different lengths: the year column holds strings, \<^verbatim>\<open>"2011" < "999"\<close> as strings, and the
  row of the year 2011 is put before the row of the year 999 of the same series.
\<close>

theorem year_as_string_counterexample:
  "transformer example
     [fr ''CUUR0000SA0'' ''999'' ''M01'' ''100'',
      fr ''CUUR0000SA0'' ''2011'' ''M01'' ''225'']
   = Inr [tr ''CUUR0000SA0'' ''2011'' 1 (Some 225),
          tr ''CUUR0000SA0'' ''999'' 1 (Some 100)] \<and>
   py_int example (lit ''999'') = Some 999 \<and> py_int example (lit ''2011'') = Some 2011 \<and>
   (999 :: int) < 2011"
  by (simp add: eval_transformer)


lemma mk_trow_sel [simp]:
  "t_series_id (mk_trow r m v) = f_series_id r"
  "t_year (mk_trow r m v) = f_year r"
  "t_value (mk_trow r m v) = v"
  "t_month (mk_trow r m v) = m"
  "t_year_month (mk_trow r m v) = f_year r @ lit ''-'' @ show_int m"
  by (simp_all add: mk_trow_def)

lemma month_of_py_int:
  "month_of p r \<noteq> None \<Longrightarrow>
     Some (the (month_of p r)) = py_int p (replace_M (f_period r))"
  using int_cell_py_int [of p "replace_M (f_period r)"]
  by (auto simp: month_of_def)

text \<open>
  C7. The coercion of the value column never raises and keeps every cell: a cell the
  parser reads has its number, a cell it cannot read has \<^verbatim>\<open>NaN\<close>; under the default
  \<^verbatim>\<open>errors='raise'\<close> the same call raises exactly when some cell cannot be read.
  Whether the transformer raises therefore depends on the periods only, never on the
  values: it raises exactly when some period does not convert to a month. When it
  returns, its table is the sort of a table with one row for each row of the flattened
  table, in the same order, carrying its series id, its year and its coerced value; in
  particular each row whose value does not parse is there, with \<^verbatim>\<open>NaN\<close>.
\<close>

theorem coercion_never_fails:
  "to_numeric p Coerce col = Inr (map (coerced p) col) \<and>
   (\<forall>s \<in> set col. parse_numeric p s = None \<longrightarrow> coerced p s = nan p) \<and>
   (isl (to_numeric p Raise col) \<longleftrightarrow> (\<exists>s \<in> set col. parse_numeric p s = None)) \<and>
   (isl (transformer p df) \<longleftrightarrow> (\<exists>r \<in> set df. month_of p r = None)) \<and>
   (\<forall>t. transformer p df = Inr t \<longrightarrow>
      length t = length df \<and>
      (\<exists>u. t = sort_values u \<and> length u = length df \<and>
         (\<forall>i < length df.
            t_series_id (u ! i) = f_series_id (df ! i) \<and> t_year (u ! i) = f_year (df ! i) \<and>
            t_value (u ! i) =
              (case parse_numeric p (f_value (df ! i)) of Some v \<Rightarrow> v | None \<Rightarrow> nan p))) \<and>
      (\<forall>r \<in> set df. parse_numeric p (f_value r) = None \<longrightarrow>
         (\<exists>r' \<in> set t. t_series_id r' = f_series_id r \<and> t_year r' = f_year r \<and>
                        Some (t_month r') = month_of p r \<and> t_value r' = nan p)))"
proof (intro conjI allI impI ballI)
  show "to_numeric p Coerce col = Inr (map (coerced p) col)"
    by (rule to_numeric_coerce)
  show "isl (to_numeric p Raise col) \<longleftrightarrow> (\<exists>s \<in> set col. parse_numeric p s = None)"
    by (rule to_numeric_raise)
  show "isl (transformer p df) \<longleftrightarrow> (\<exists>r \<in> set df. month_of p r = None)"
    by (rule transformer_Inl)
next
  fix s assume "parse_numeric p s = None"
  then show "coerced p s = nan p" by (simp add: coerced_def)
next
  fix t assume t: "transformer p df = Inr t"
  from transformer_Inr [OF t]
  have ok: "\<forall>r \<in> set df. month_of p r \<noteq> None" and eq: "t = sort_values (unsorted p df)"
    by simp_all
  from eq show "length t = length df"
    by (simp add: sort_values_def unsorted_def)
  have "\<forall>i < length df.
            t_series_id (unsorted p df ! i) = f_series_id (df ! i) \<and>
            t_year (unsorted p df ! i) = f_year (df ! i) \<and>
            t_value (unsorted p df ! i) =
              (case parse_numeric p (f_value (df ! i)) of Some v \<Rightarrow> v | None \<Rightarrow> nan p)"
    by (simp add: unsorted_def row_of_def coerced_def)
  with eq show "\<exists>u. t = sort_values u \<and> length u = length df \<and>
         (\<forall>i < length df.
            t_series_id (u ! i) = f_series_id (df ! i) \<and> t_year (u ! i) = f_year (df ! i) \<and>
            t_value (u ! i) =
              (case parse_numeric p (f_value (df ! i)) of Some v \<Rightarrow> v | None \<Rightarrow> nan p))"
    by (intro exI [of _ "unsorted p df"]) (simp add: unsorted_def)
  fix r assume r: "r \<in> set df" and none: "parse_numeric p (f_value r) = None"
  from eq have "set t = set (unsorted p df)" by (simp add: sort_values_def)
  with r have in_t: "row_of p r \<in> set t" by (simp add: unsorted_def)
  from ok r have "month_of p r \<noteq> None" by blast
  then have "Some (the (month_of p r)) = month_of p r" by auto
  with none in_t
  show "\<exists>r' \<in> set t. t_series_id r' = f_series_id r \<and> t_year r' = f_year r \<and>
                        Some (t_month r') = month_of p r \<and> t_value r' = nan p"
    by (intro bexI [of _ "row_of p r"]) (simp_all add: row_of_def coerced_def)
qed

text \<open>A value \<^verbatim>\<open>-\<close> becomes the missing value and both rows are kept.\<close>

theorem coercion_never_fails_witness:
  "transformer example
     [fr ''CUUR0000SA0'' ''2011'' ''M02'' ''-'',
      fr ''CUUR0000SA0'' ''2011'' ''M01'' ''220'']
   = Inr [tr ''CUUR0000SA0'' ''2011'' 1 (Some 220),
          tr ''CUUR0000SA0'' ''2011'' 2 None] \<and>
   length [tr ''CUUR0000SA0'' ''2011'' 1 (Some (220 :: int)),
           tr ''CUUR0000SA0'' ''2011'' 2 None] =
   length [fr ''CUUR0000SA0'' ''2011'' ''M02'' ''-'',
           fr ''CUUR0000SA0'' ''2011'' ''M01'' ''220''] \<and>
   isl (to_numeric example Raise [lit ''-'', lit ''220''])"
proof -
  let ?df = "[fr ''CUUR0000SA0'' ''2011'' ''M02'' ''-'',
      fr ''CUUR0000SA0'' ''2011'' ''M01'' ''220'']"
  let ?t = "[tr ''CUUR0000SA0'' ''2011'' 1 (Some (220 :: int)),
          tr ''CUUR0000SA0'' ''2011'' 2 None]"
  have run: "transformer example ?df = Inr ?t"
    by (simp add: eval_transformer)
  have bad: "\<exists>s \<in> set [lit ''-'', lit ''220'']. parse_numeric example s = None"
    by (simp add: example_def ascii_digit_def lit_def chr_code_def)
  from run coercion_never_fails [of example "[lit ''-'', lit ''220'']" ?df]
  have "length ?t = length ?df"
    by blast
  moreover from bad coercion_never_fails [of example "[lit ''-'', lit ''220'']" ?df]
  have "isl (to_numeric example Raise [lit ''-'', lit ''220''])"
    by blast
  ultimately show ?thesis using run by simp
qed

lemma monthly_leading_M:
  assumes "monthly m"
  shows "\<exists>rest. m = 77 # rest \<and> replace_M m = replace_M rest \<and>
          (77 \<notin> set rest \<longrightarrow> replace_M m = rest)"
proof (cases m)
  case Nil
  with assms show ?thesis by (simp add: monthly_def lit_def)
next
  case (Cons c rest)
  with assms have "c = 77" by (simp add: monthly_M)
  with Cons show ?thesis
    by (auto simp: replace_M_def chr_code_def filter_id_conv)
qed

text \<open>
  C8 (as amended). When the transformer returns a table for the flattened table of a
  response, that table is the sort of a table with one row for each row of the
  flattened table, in the same order, that carries its series id, its year, its coerced
  value and, as month, the integer that \<open>int\<close> reads from its period code with every
  \<^verbatim>\<open>M\<close> removed. Every period of the flattened table starts with \<^verbatim>\<open>M\<close>, and where the
  rest of it has no other \<^verbatim>\<open>M\<close> the month is the integer read from the rest, the code
  stripped of its leading \<^verbatim>\<open>M\<close>. That is so for the twelve month codes, whose months
  are 1 to 12.
\<close>

theorem month_column:
  "(\<forall>df t. flattened p json_data = Some df \<and> transformer p df = Inr t \<longrightarrow>
      (\<exists>u. t = sort_values u \<and> length u = length df \<and>
         (\<forall>i < length df.
            t_series_id (u ! i) = f_series_id (df ! i) \<and> t_year (u ! i) = f_year (df ! i) \<and>
            t_value (u ! i) = coerced p (f_value (df ! i)) \<and>
            Some (t_month (u ! i)) = py_int p (replace_M (f_period (df ! i))) \<and>
            t_year_month (u ! i) = f_year (df ! i) @ lit ''-'' @ show_int (t_month (u ! i))))) \<and>
   (\<forall>df. flattened p json_data = Some df \<longrightarrow>
      (\<forall>row \<in> set df.
         \<exists>rest. f_period row = 77 # rest \<and>
           (77 \<notin> set rest \<longrightarrow> py_int p (replace_M (f_period row)) = py_int p rest))) \<and>
   map (\<lambda>m. py_int p (replace_M m)) month_codes =
     map Some [1, 2, 3, 4, 5, 6, 7, 8, 9, 10, 11, 12] \<and>
   (\<forall>m \<in> set month_codes. hd m = 77 \<and> 77 \<notin> set (tl m))"
proof (intro conjI allI impI ballI)
  fix df t assume "flattened p json_data = Some df \<and> transformer p df = Inr t"
  then have t: "transformer p df = Inr t" by simp
  from transformer_Inr [OF t]
  have ok: "\<forall>r \<in> set df. month_of p r \<noteq> None" and eq: "t = sort_values (unsorted p df)"
    by simp_all
  have "t_series_id (unsorted p df ! i) = f_series_id (df ! i) \<and>
        t_year (unsorted p df ! i) = f_year (df ! i) \<and>
        t_value (unsorted p df ! i) = coerced p (f_value (df ! i)) \<and>
        Some (t_month (unsorted p df ! i)) = py_int p (replace_M (f_period (df ! i))) \<and>
        t_year_month (unsorted p df ! i) =
          f_year (df ! i) @ lit ''-'' @ show_int (t_month (unsorted p df ! i))"
    if i: "i < length df" for i
  proof -
    from i ok have "month_of p (df ! i) \<noteq> None" by simp
    from month_of_py_int [OF this] i show ?thesis
      by (simp add: unsorted_def row_of_def)
  qed
  with eq show "\<exists>u. t = sort_values u \<and> length u = length df \<and>
         (\<forall>i < length df.
            t_series_id (u ! i) = f_series_id (df ! i) \<and> t_year (u ! i) = f_year (df ! i) \<and>
            t_value (u ! i) = coerced p (f_value (df ! i)) \<and>
            Some (t_month (u ! i)) = py_int p (replace_M (f_period (df ! i))) \<and>
            t_year_month (u ! i) = f_year (df ! i) @ lit ''-'' @ show_int (t_month (u ! i)))"
    by (intro exI [of _ "unsorted p df"]) (simp add: unsorted_def)
next
  fix df row assume "flattened p json_data = Some df" and row: "row \<in> set df"
  then have "df = monthly_rows json_data"
    by (simp add: flattened_eq split: if_splits)
  with row have "monthly (f_period row)" by (simp add: monthly_rows_periods)
  from monthly_leading_M [OF this]
  show "\<exists>rest. f_period row = 77 # rest \<and>
        (77 \<notin> set rest \<longrightarrow> py_int p (replace_M (f_period row)) = py_int p rest)"
    by auto
next
  show "map (\<lambda>m. py_int p (replace_M m)) month_codes =
        map Some [1, 2, 3, 4, 5, 6, 7, 8, 9, 10, 11, 12]"
    by (simp add: month_codes_def replace_M_def py_int_def strip_def is_space_def
        unicode_space_def unsigned_int_def digits_allowed_def digit_value_def ascii_digit_def
        lit_def chr_code_def)
next
  fix m assume "m \<in> set month_codes"
  then show "hd m = 77" and "77 \<notin> set (tl m)"
    by (auto simp: month_codes_def lit_def chr_code_def)
qed

text \<open>The period \<^verbatim>\<open>M08\<close> yields the month 8.\<close>

theorem month_column_witness:
  "flattened example (succeeded [\<lparr>seriesID = lit ''CUUR0000SA0'',
       s_data = [obs ''2011'' ''M08'' ''226'' [Obj []]]\<rparr>])
     = Some [fr ''CUUR0000SA0'' ''2011'' ''M08'' ''226''] \<and>
   transformer example [fr ''CUUR0000SA0'' ''2011'' ''M08'' ''226'']
     = Inr [tr ''CUUR0000SA0'' ''2011'' 8 (Some 226)] \<and>
   Some (t_month (tr ''CUUR0000SA0'' ''2011'' 8 (Some (226 :: int)))) =
     py_int example (replace_M (lit ''M08''))"
proof -
  let ?r = "succeeded [\<lparr>seriesID = lit ''CUUR0000SA0'',
       s_data = [obs ''2011'' ''M08'' ''226'' [Obj []]]\<rparr>]"
  let ?df = "[fr ''CUUR0000SA0'' ''2011'' ''M08'' ''226'']"
  let ?x = "tr ''CUUR0000SA0'' ''2011'' 8 (Some (226 :: int))"
  have flat: "flattened example ?r = Some ?df"
    by (simp add: eval_flattened)
  have run: "transformer example ?df = Inr [?x]"
    by (simp add: eval_transformer)
  from month_column [of example ?r] flat run
  obtain u where u: "[?x] = sort_values u" "length u = length ?df"
    "\<forall>i < length ?df. Some (t_month (u ! i)) = py_int example (replace_M (f_period (?df ! i)))"
    by blast
  from u(2) obtain y where y: "u = [y]"
    by (cases u) simp_all
  with u(1) have "y = ?x" by (simp add: sort_values_def)
  with u(3) y have "Some (t_month ?x) = py_int example (replace_M (lit ''M08''))"
    by (simp add: fr_def)
  with flat run show ?thesis by blast
qed

text \<open>
  The claim as written fails on a kept period with a second \<^verbatim>\<open>M\<close>: \<^verbatim>\<open>M0M5\<close> lies in
  the lexicographic range, its month is 5, and stripping the leading \<^verbatim>\<open>M\<close> leaves
  \<^verbatim>\<open>0M5\<close>, which is no integer.
\<close>

theorem every_M_removed_counterexample:
  "flattened example (succeeded [\<lparr>seriesID = lit ''CUUR0000SA0'',
       s_data = [obs ''2011'' ''M0M5'' ''226'' [Obj []]]\<rparr>])
     = Some [fr ''CUUR0000SA0'' ''2011'' ''M0M5'' ''226''] \<and>
   transformer example [fr ''CUUR0000SA0'' ''2011'' ''M0M5'' ''226'']
     = Inr [tr ''CUUR0000SA0'' ''2011'' 5 (Some 226)] \<and>
   py_int example (tl (lit ''M0M5'')) = None"
  by (simp add: eval_flattened eval_transformer)

section \<open>The transformed table after rendering\<close>

lemma select_rows_map: "select_rows (map P xs) xs = filter P xs"
  by (induction xs) (simp_all add: select_rows_def)

lemma rows_getitem_mask:
  "rows (getitem_mask f (mask_of f selected)) =
     filter (\<lambda>r. Some (t_series_id r) = selected) (rows f)"
  by (simp add: getitem_mask_def mask_of_def select_rows_map)

lemma map_of_set_column: "map_of (set_column name col cols) name = Some col"
  by (induction cols) auto

lemma presenter_eq:
  "presenter p h df selected w =
     (let f = getitem_mask (h ! df) (mask_of (h ! df) selected);
          vals = map t_value (rows f)
      in \<lparr>d_heap = h @ [f, setitem (lit ''Rolling_Avg'') (rolling_mean p w vals) f],
          filtered_data = Suc (length h),
          metrics = [(lit ''Max Value'', format_2f p (series_max p vals)),
                     (lit ''Min Value'', format_2f p (series_min p vals)),
                     (lit ''Average Value'', format_2f p (series_mean p vals))]\<rparr>)"
  by (simp add: presenter_def alloc_def Let_def nth_append list_update_append)

lemma main_completed:
  assumes "status r = lit ''REQUEST_SUCCEEDED''" "flattened p r = Some df"
    "csv_writable p r" "transformer p df = Inr t"
  shows "dashboard_of (main p r choice w) =
           Some (presenter p [\<lparr>rows = t, extra = []\<rparr>] 0
                   (selectbox (series_list \<lparr>rows = t, extra = []\<rparr>) choice) w)"
proof -
  from assms(2) have df: "df = monthly_rows r" and tw: "tables_writable p r"
    by (simp_all add: flattened_eq split: if_splits)
  from normalizer_cases [of p r] tw obtain fs where
    n: "normalizer p (Results r) = Inr (monthly_rows r, fs)"
    by blast
  from assms(1) have c: "check_status r = None" by (simp add: check_status_def)
  from assms(3) have csv: "to_csv p (monthly_rows r) fs =
      Inr (fs(lit ''bls_data.csv'' \<mapsto> Csv table_header (monthly_rows r)))"
    by (simp add: to_csv_def csv_writable_def Let_def)
  from assms(4) c n csv show ?thesis
    by (simp add: main_def df Let_def)
qed

lemma heap_presenter:
  "a < length h \<Longrightarrow> d_heap (presenter p h df selected w) ! a = h ! a"
  by (simp add: presenter_eq Let_def nth_append)

text \<open>
  A column assignment does change the frame it is applied to, so the next theorem is
  about which object the assignment reaches.
\<close>

lemma setitem_changes:
  "map_of (extra f) name \<noteq> Some col \<Longrightarrow> setitem name col f \<noteq> f"
proof
  assume no: "map_of (extra f) name \<noteq> Some col" and same: "setitem name col f = f"
  from same have "extra (setitem name col f) = extra f" by simp
  then have "map_of (set_column name col (extra f)) name = map_of (extra f) name"
    by (simp add: setitem_def)
  with no show False by (simp add: map_of_set_column)
qed

text \<open>
  The frame \<^verbatim>\<open>filtered_data\<close> refers to holds the rows of the selected series, in the
  order of the table, and the column \<^verbatim>\<open>Rolling_Avg\<close> that the library computes from
  their values.
\<close>

lemma filtered_frame:
  "d_heap (presenter p h df selected w) ! filtered_data (presenter p h df selected w) =
     setitem (lit ''Rolling_Avg'')
       (rolling_mean p w
          (map t_value (filter (\<lambda>r. Some (t_series_id r) = selected) (rows (h ! df)))))
       (getitem_mask (h ! df) (mask_of (h ! df) selected))"
  by (simp add: presenter_eq Let_def nth_append rows_getitem_mask)

text \<open>
  C10. Rendering leaves every frame that was in the heap before it as it was, the
  transformed table \<^verbatim>\<open>df\<close> among them: \<^verbatim>\<open>filtered_data\<close> refers to a new object, and the
  \<^verbatim>\<open>Rolling_Avg\<close> column is assigned to that object. In a completed run the table at the
  address of \<^verbatim>\<open>df\<close> is the transformer's result, rows and order unchanged and with no
  column added; a run completes when the status is the success marker, the files can be
  written and the transformer returns.
\<close>

theorem presenter_frame:
  "(df < length h \<longrightarrow>
      (\<forall>a < length h. d_heap (presenter p h df selected w) ! a = h ! a) \<and>
      d_heap (presenter p h df selected w) ! df = h ! df \<and>
      filtered_data (presenter p h df selected w) \<noteq> df) \<and>
   (\<forall>fl t. status json_data = lit ''REQUEST_SUCCEEDED'' \<and>
        flattened p json_data = Some fl \<and> csv_writable p json_data \<and>
        transformer p fl = Inr t \<longrightarrow>
      (\<exists>d. dashboard_of (main p json_data choice w) = Some d \<and>
           d_heap d ! 0 = \<lparr>rows = t, extra = []\<rparr> \<and> filtered_data d \<noteq> 0))"
proof (intro conjI allI impI)
  assume df: "df < length h"
  show "d_heap (presenter p h df selected w) ! a = h ! a" if "a < length h" for a
    using that by (rule heap_presenter)
  from df show "d_heap (presenter p h df selected w) ! df = h ! df"
    by (rule heap_presenter)
  from df show "filtered_data (presenter p h df selected w) \<noteq> df"
    by (simp add: presenter_eq Let_def)
next
  fix fl t
  assume "status json_data = lit ''REQUEST_SUCCEEDED'' \<and>
        flattened p json_data = Some fl \<and> csv_writable p json_data \<and>
        transformer p fl = Inr t"
  then have d: "dashboard_of (main p json_data choice w) =
      Some (presenter p [\<lparr>rows = t, extra = []\<rparr>] 0
              (selectbox (series_list \<lparr>rows = t, extra = []\<rparr>) choice) w)"
    by (simp add: main_completed)
  show "\<exists>d. dashboard_of (main p json_data choice w) = Some d \<and>
           d_heap d ! 0 = \<lparr>rows = t, extra = []\<rparr> \<and> filtered_data d \<noteq> 0"
    unfolding d by (simp add: heap_presenter) (simp add: presenter_eq Let_def)
qed

text \<open>
  A table of three rows is the same after rendering one of its series, and so is the
  table of a completed run.
\<close>

theorem presenter_frame_witness:
  "d_heap (presenter example
      [\<lparr>rows = [tr ''CUUR0000SA0'' ''2011'' 1 (Some 10), tr ''SUUR0000SA0'' ''2011'' 1 (Some 5),
                tr ''CUUR0000SA0'' ''2011'' 2 (Some 20)], extra = []\<rparr>]
      0 (Some (lit ''CUUR0000SA0'')) 3) ! 0
   = \<lparr>rows = [tr ''CUUR0000SA0'' ''2011'' 1 (Some 10), tr ''SUUR0000SA0'' ''2011'' 1 (Some 5),
              tr ''CUUR0000SA0'' ''2011'' 2 (Some 20)], extra = []\<rparr> \<and>
   map_option (\<lambda>d. d_heap d ! 0)
     (dashboard_of (main example (succeeded [\<lparr>seriesID = lit ''CUUR0000SA0'',
        s_data = [obs ''2011'' ''M02'' ''221'' [Obj []],
                  obs ''2011'' ''M01'' ''220'' [Obj []]]\<rparr>]) 0 3))
   = Some \<lparr>rows = [tr ''CUUR0000SA0'' ''2011'' 1 (Some 220),
                   tr ''CUUR0000SA0'' ''2011'' 2 (Some 221)], extra = []\<rparr>"
proof -
  let ?f = "\<lparr>rows = [tr ''CUUR0000SA0'' ''2011'' 1 (Some (10 :: int)),
                tr ''SUUR0000SA0'' ''2011'' 1 (Some 5),
                tr ''CUUR0000SA0'' ''2011'' 2 (Some 20)], extra = []\<rparr>"
  let ?r = "succeeded [\<lparr>seriesID = lit ''CUUR0000SA0'',
        s_data = [obs ''2011'' ''M02'' ''221'' [Obj []],
                  obs ''2011'' ''M01'' ''220'' [Obj []]]\<rparr>]"
  let ?fl = "[fr ''CUUR0000SA0'' ''2011'' ''M02'' ''221'', fr ''CUUR0000SA0'' ''2011'' ''M01'' ''220'']"
  let ?t = "[tr ''CUUR0000SA0'' ''2011'' 1 (Some (220 :: int)),
             tr ''CUUR0000SA0'' ''2011'' 2 (Some 221)]"
  have a: "0 < length [?f]" by simp
  from presenter_frame [of 0 "[?f]" example "Some (lit ''CUUR0000SA0'')" 3] a
  have "d_heap (presenter example [?f] 0 (Some (lit ''CUUR0000SA0'')) 3) ! 0 = [?f] ! 0"
    by blast
  then have first: "d_heap (presenter example [?f] 0 (Some (lit ''CUUR0000SA0'')) 3) ! 0 = ?f"
    by simp
  have ok: "status ?r = lit ''REQUEST_SUCCEEDED''" by (simp add: succeeded_def)
  have flat: "flattened example ?r = Some ?fl"
    by (simp add: eval_flattened)
  have csv: "csv_writable example ?r"
    by (simp add: csv_writable_def example_def lit_def chr_code_def)
  have run: "transformer example ?fl = Inr ?t"
    by (simp add: eval_transformer)
  from presenter_frame [of 0 "[?f]" example "Some (lit ''CUUR0000SA0'')" 3 ?r 0] ok flat csv run
  obtain d where "dashboard_of (main example ?r 0 3) = Some d"
    and "d_heap d ! 0 = \<lparr>rows = ?t, extra = []\<rparr>"
    by blast
  then have "map_option (\<lambda>d. d_heap d ! 0) (dashboard_of (main example ?r 0 3)) =
      Some \<lparr>rows = ?t, extra = []\<rparr>"
    by simp
  with first show ?thesis by (rule conjI)
qed

end
